theory Spec2Isabelle
  imports Main "HOL-Library.Word"
begin

section \<open>The text client of the Assistant service (telegramassistant.py)\<close>

text \<open>
  The development embeds the class \<^verbatim>\<open>SampleTextAssistant\<close> and the Telegram message
  handler of \<^verbatim>\<open>telegramassistant.py\<close>. The gRPC stub, the protobuf messages and the
  Telegram objects belong to libraries; they appear here only as far as the source reads or
  writes them.
\<close>

subsection \<open>Protobuf messages\<close>

type_synonym bytes = "8 word list"

text \<open>
  Several messages of the source share field names with the session object. The fields of
  the messages carry a short prefix here; the fields of the session keep the source's names.
\<close>

record DialogStateIn =
  in_language_code :: string
  in_conversation_state :: bytes

record AudioOutConfig =
  encoding :: string
  sample_rate_hertz :: int
  volume_percentage :: int

record DeviceConfig =
  cfg_device_id :: string
  cfg_device_model_id :: string

record AssistConfig =
  audio_out_config :: AudioOutConfig
  dialog_state_in :: DialogStateIn
  device_config :: DeviceConfig
  text_query :: string

record AssistRequest =
  config :: AssistConfig

record DialogStateOut =
  out_conversation_state :: bytes
  supplemental_display_text :: string

record AssistResponse =
  dialog_state_out :: DialogStateOut

subsection \<open>The streaming call\<close>

text \<open>
  \<^verbatim>\<open>self.assistant.Assist(requests, deadline)\<close> returns an iterator. Iterating it yields
  response messages and then either stops or raises an error of the gRPC library (the
  deadline passing is one of them, reported while the loop waits for the next message).
  A call is therefore described by the messages it yields and by how it ends.
\<close>

datatype StatusCode = DEADLINE_EXCEEDED | UNAVAILABLE | INTERNAL

datatype RpcError = RpcError StatusCode

type_synonym response_stream = "AssistResponse list \<times> RpcError option"

type_synonym stub = "AssistRequest list \<Rightarrow> int \<Rightarrow> response_stream"

subsection \<open>The session object\<close>

text \<open>
  \<^verbatim>\<open>conversation_state\<close> is \<^verbatim>\<open>None\<close> or a byte string. The stub built from the channel
  in \<^verbatim>\<open>__init__\<close> is never assigned again; what it answers at one call is the parameter
  \<open>Assist\<close> of that call.
\<close>

record SampleTextAssistant =
  language_code :: string
  device_model_id :: string
  device_id :: string
  conversation_state :: "bytes option"
  deadline :: int

definition init :: "string \<Rightarrow> string \<Rightarrow> string \<Rightarrow> int \<Rightarrow> SampleTextAssistant" where
  "init lang model_id dev_id deadline_sec =
     \<lparr> language_code = lang,
       device_model_id = model_id,
       device_id = dev_id,
       conversation_state = None,
       deadline = deadline_sec \<rparr>"

text \<open>Python's truth value of \<^verbatim>\<open>None\<close> and of a byte string.\<close>

fun truthy :: "bytes option \<Rightarrow> bool" where
  "truthy None = False"
| "truthy (Some b) = (b \<noteq> [])"

text \<open>
  The generator \<^verbatim>\<open>iter_assist_requests\<close> yields one request. Its body runs when the
  library pulls the first request, which is before any response of the same call exists, so
  it reads the session as it is when \<^verbatim>\<open>assist\<close> is entered.
\<close>

definition req :: "SampleTextAssistant \<Rightarrow> string \<Rightarrow> AssistRequest" where
  "req self q =
     (let dialog_state_in0 =
            \<lparr> in_language_code = language_code self, in_conversation_state = [] \<rparr>;
          dialog_state_in1 =
            (if truthy (conversation_state self)
             then dialog_state_in0\<lparr> in_conversation_state := the (conversation_state self) \<rparr>
             else dialog_state_in0);
          cfg = \<lparr> audio_out_config =
                    \<lparr> encoding = ''LINEAR16'', sample_rate_hertz = 16000,
                      volume_percentage = 0 \<rparr>,
                  dialog_state_in = dialog_state_in1,
                  device_config =
                    \<lparr> cfg_device_id = device_id self,
                      cfg_device_model_id = device_model_id self \<rparr>,
                  text_query = q \<rparr>
      in \<lparr> config = cfg \<rparr>)"

definition iter_assist_requests :: "SampleTextAssistant \<Rightarrow> string \<Rightarrow> AssistRequest list" where
  "iter_assist_requests self q = [req self q]"

text \<open>
  The body of the \<^verbatim>\<open>for\<close> loop, and the loop over the messages that arrive before the
  stream ends. The session is updated message by message, as the assignment to
  \<^verbatim>\<open>self.conversation_state\<close> inside the loop does.
\<close>

definition loop_body ::
  "SampleTextAssistant \<times> string option \<Rightarrow> AssistResponse \<Rightarrow> SampleTextAssistant \<times> string option"
where
  "loop_body st resp =
     (let self1 =
            (if out_conversation_state (dialog_state_out resp) \<noteq> []
             then (fst st)\<lparr> conversation_state :=
                               Some (out_conversation_state (dialog_state_out resp)) \<rparr>
             else fst st);
          display_text1 =
            (if supplemental_display_text (dialog_state_out resp) \<noteq> []
             then Some (supplemental_display_text (dialog_state_out resp))
             else snd st)
      in (self1, display_text1))"

fun loop :: "SampleTextAssistant \<times> string option \<Rightarrow> AssistResponse list
               \<Rightarrow> SampleTextAssistant \<times> string option" where
  "loop st [] = st"
| "loop st (resp # rest) = loop (loop_body st resp) rest"

text \<open>
  \<^verbatim>\<open>assist\<close> returns the session after the call and either the error that left the loop
  or the value of \<^verbatim>\<open>display_text\<close>.
\<close>

definition assist ::
  "SampleTextAssistant \<Rightarrow> string \<Rightarrow> stub \<Rightarrow> SampleTextAssistant \<times> (RpcError + string option)"
where
  "assist self q Assist =
     (case Assist (iter_assist_requests self q) (deadline self) of
        (resps, ending) \<Rightarrow>
          (case loop (self, None) resps of
             (self1, display_text) \<Rightarrow>
               (case ending of
                  None \<Rightarrow> (self1, Inr display_text)
                | Some e \<Rightarrow> (self1, Inl e))))"

subsection \<open>The message handler\<close>

text \<open>
  The module-level function \<^verbatim>\<open>assist(bot, update)\<close> is \<open>assist_handler\<close> here, the
  name \<open>assist\<close> being taken by the method. It reads the module's globals and the fields
  of the incoming message, and it calls the session and the Telegram objects. The calls it
  makes are recorded in order. \<^verbatim>\<open>get_member\<close> either returns or raises
  \<^verbatim>\<open>TelegramError\<close>, which the source catches; the parameter \<open>member_found\<close> says
  which. The other Telegram calls are taken to return. An error raised by the session's
  \<^verbatim>\<open>assist\<close> is not caught by the handler and ends it. The field \<^verbatim>\<open>text\<close> of the
  message is \<open>message_text\<close>, and the local variable of that name in the source, the text
  after the mention, is \<open>query\<close>.
\<close>

record globals =
  ALLOWED_CHAT_IDS :: "int list"
  AUTHORIZED_USER_IDS :: "int list"
  bot_username :: string

record Message =
  chat_type :: string
  chat_id :: int
  from_user_id :: int
  message_text :: string

datatype call =
    Call_assist string
  | Call_reply_text "string option"
  | Call_get_member int
  | Call_leave

record outcome =
  session :: SampleTextAssistant
  calls :: "call list"
  raised :: "RpcError option"

text \<open>\<^verbatim>\<open>s.startswith(p)\<close> and \<^verbatim>\<open>s.split(' ', 1)\<close> of Python strings.\<close>

definition startswith :: "string \<Rightarrow> string \<Rightarrow> bool" where
  "startswith s p = (take (length p) s = p)"

definition split1 :: "string \<Rightarrow> string list" where
  "split1 s =
     (if CHR '' '' \<in> set s
      then [takeWhile (\<lambda>c. c \<noteq> CHR '' '') s, tl (dropWhile (\<lambda>c. c \<noteq> CHR '' '') s)]
      else [s])"

text \<open>The loop over \<^verbatim>\<open>AUTHORIZED_USER_IDS\<close> that decides \<^verbatim>\<open>should_leave_chat\<close>.\<close>

fun member_loop :: "(int \<Rightarrow> bool) \<Rightarrow> int list \<Rightarrow> bool \<Rightarrow> call list \<times> bool" where
  "member_loop member_found [] should_leave_chat = ([], should_leave_chat)"
| "member_loop member_found (user_id # rest) should_leave_chat =
     (case member_loop member_found rest
             (if member_found user_id then False else should_leave_chat) of
        (cs, r) \<Rightarrow> (Call_get_member user_id # cs, r))"

definition assist_handler ::
  "globals \<Rightarrow> SampleTextAssistant \<Rightarrow> stub \<Rightarrow> (int \<Rightarrow> bool) \<Rightarrow> Message \<Rightarrow> outcome"
where
  "assist_handler g assistant Assist member_found message =
     (if chat_type message = ''private'' then
        (if from_user_id message \<notin> set (AUTHORIZED_USER_IDS g) then
           \<lparr> session = assistant,
             calls = [Call_reply_text (Some ''Unauthorized'')],
             raised = None \<rparr>
         else
           (case assist assistant (message_text message) Assist of
              (assistant1, Inl e) \<Rightarrow>
                \<lparr> session = assistant1,
                  calls = [Call_assist (message_text message)],
                  raised = Some e \<rparr>
            | (assistant1, Inr display_text) \<Rightarrow>
                \<lparr> session = assistant1,
                  calls = [Call_assist (message_text message), Call_reply_text display_text],
                  raised = None \<rparr>))
      else if startswith (message_text message) (''@'' @ bot_username g) then
        (let message_tokens = split1 (message_text message) in
         if length message_tokens > 1 then
           (let query = message_tokens ! 1 in
            case assist assistant query Assist of
              (assistant1, Inl e) \<Rightarrow>
                \<lparr> session = assistant1, calls = [Call_assist query], raised = Some e \<rparr>
            | (assistant1, Inr display_text) \<Rightarrow>
                (if chat_id message \<notin> set (ALLOWED_CHAT_IDS g)
                    \<and> from_user_id message \<notin> set (AUTHORIZED_USER_IDS g) then
                   (case member_loop member_found (AUTHORIZED_USER_IDS g) True of
                      (cs, should_leave_chat) \<Rightarrow>
                        \<lparr> session = assistant1,
                          calls = [Call_assist query, Call_reply_text (Some ''Unauthorized'')]
                                    @ cs @ (if should_leave_chat then [Call_leave] else []),
                          raised = None \<rparr>)
                 else if display_text \<noteq> None then
                   \<lparr> session = assistant1,
                     calls = [Call_assist query, Call_reply_text display_text],
                     raised = None \<rparr>
                 else
                   \<lparr> session = assistant1, calls = [Call_assist query], raised = None \<rparr>))
         else \<lparr> session = assistant, calls = [], raised = None \<rparr>)
      else \<lparr> session = assistant, calls = [], raised = None \<rparr>)"

subsection \<open>Turns on one session\<close>

text \<open>
  A turn is a query together with what the service answers to the request of that turn.
  \<open>run_turns\<close> calls \<open>assist\<close> for each turn in order on the same session.
  \<open>sent\<close> is what the generator of the turn with index \<open>k\<close> (counted from 0) yields
  on the session as the earlier turns left it, that is, the requests \<open>assist\<close> hands to the
  service in that turn; \<open>sent_tokens\<close> are their \<^verbatim>\<open>conversation_state\<close> fields, and
  \<open>received\<close> the messages the service of that turn yields for them.
\<close>

fun run_turns :: "SampleTextAssistant \<Rightarrow> (string \<times> stub) list \<Rightarrow> SampleTextAssistant" where
  "run_turns self [] = self"
| "run_turns self (t # ts) = run_turns (fst (assist self (fst t) (snd t))) ts"

definition sent ::
  "SampleTextAssistant \<Rightarrow> (string \<times> stub) list \<Rightarrow> nat \<Rightarrow> AssistRequest list"
where
  "sent self ts k = iter_assist_requests (run_turns self (take k ts)) (fst (ts ! k))"

definition received ::
  "SampleTextAssistant \<Rightarrow> (string \<times> stub) list \<Rightarrow> nat \<Rightarrow> AssistResponse list"
where
  "received self ts k =
     fst (snd (ts ! k) (sent self ts k) (deadline (run_turns self (take k ts))))"

definition sent_tokens ::
  "SampleTextAssistant \<Rightarrow> (string \<times> stub) list \<Rightarrow> nat \<Rightarrow> bytes list"
where
  "sent_tokens self ts k =
     map (\<lambda>r. in_conversation_state (dialog_state_in (config r))) (sent self ts k)"

text \<open>
  A service that answers as \<open>Assist\<close> does when it is handed exactly \<open>requests\<close>, and
  fails at once on any other list of requests.
\<close>

definition expecting :: "AssistRequest list \<Rightarrow> stub \<Rightarrow> stub" where
  "expecting requests Assist =
     (\<lambda>requests1 deadline_sec.
        if requests1 = requests then Assist requests1 deadline_sec
        else ([], Some (RpcError INTERNAL)))"

text \<open>The last element of a list of strings that is not empty, if there is one.\<close>

fun last_nonempty :: "'a list list \<Rightarrow> 'a list option" where
  "last_nonempty [] = None"
| "last_nonempty (x # xs) =
     (case last_nonempty xs of
        Some y \<Rightarrow> Some y
      | None \<Rightarrow> (if x \<noteq> [] then Some x else None))"

definition tokens :: "AssistResponse list \<Rightarrow> bytes list" where
  "tokens rs = map (\<lambda>r. out_conversation_state (dialog_state_out r)) rs"

definition texts :: "AssistResponse list \<Rightarrow> string list" where
  "texts rs = map (\<lambda>r. supplemental_display_text (dialog_state_out r)) rs"

text \<open>A response message with the two fields the source reads.\<close>

definition response :: "bytes \<Rightarrow> string \<Rightarrow> AssistResponse" where
  "response tok txt =
     \<lparr> dialog_state_out = \<lparr> out_conversation_state = tok, supplemental_display_text = txt \<rparr> \<rparr>"

text \<open>The queries passed to the session's \<^verbatim>\<open>assist\<close> among the calls of a handler run.\<close>

definition asked :: "call list \<Rightarrow> string list" where
  "asked cs = concat (map (\<lambda>c. case c of Call_assist q \<Rightarrow> [q] | _ \<Rightarrow> []) cs)"

subsection \<open>Concrete inputs\<close>

text \<open>
  A session as \<^verbatim>\<open>main\<close> builds it (language \<^verbatim>\<open>en-US\<close>, the default deadline of
  185 seconds), a setting of the globals, and a service that answers every request with a
  fixed stream.
\<close>

definition session0 :: SampleTextAssistant where
  "session0 = init ''en-US'' ''model'' ''device'' 185"

definition globals0 :: globals where
  "globals0 = \<lparr> ALLOWED_CHAT_IDS = [100], AUTHORIZED_USER_IDS = [7], bot_username = ''botname'' \<rparr>"

definition answers :: "AssistResponse list \<Rightarrow> RpcError option \<Rightarrow> stub" where
  "answers rs ending = (\<lambda>requests deadline_sec. (rs, ending))"

section \<open>Properties\<close>

subsection \<open>The loop as a fold\<close>

lemma loop_fold:
  "loop (s, d) rs =
     (s\<lparr> conversation_state :=
            (case last_nonempty (tokens rs) of None \<Rightarrow> conversation_state s | Some t \<Rightarrow> Some t) \<rparr>,
      (case last_nonempty (texts rs) of None \<Rightarrow> d | Some t \<Rightarrow> Some t))"
proof (induction rs arbitrary: s d)
  case Nil
  then show ?case by (simp add: tokens_def texts_def)
next
  case (Cons r rs)
  show ?case
    by (simp add: Cons.IH loop_body_def tokens_def texts_def split: option.splits)
qed

lemma last_nonempty_snoc:
  "last_nonempty (xs @ [x]) = (if x \<noteq> [] then Some x else last_nonempty xs)"
  by (induction xs) (simp_all split: option.splits)

lemma last_nonempty_None: "last_nonempty xs = None \<longleftrightarrow> (\<forall>x \<in> set xs. x = [])"
  by (induction xs) (auto split: option.splits)

lemma last_nonempty_Some: "last_nonempty xs = Some y \<Longrightarrow> y \<noteq> []"
  by (induction xs) (auto split: option.splits if_splits)

lemma assist_session:
  "fst (assist self q Assist) =
     self\<lparr> conversation_state :=
             (case last_nonempty (tokens (fst (Assist (iter_assist_requests self q) (deadline self)))) of
                None \<Rightarrow> conversation_state self
              | Some t \<Rightarrow> Some t) \<rparr>"
  by (simp add: assist_def loop_fold split: prod.splits option.splits)

lemma assist_result:
  "snd (assist self q Assist) =
     (case snd (Assist (iter_assist_requests self q) (deadline self)) of
        None \<Rightarrow> Inr (last_nonempty (texts (fst (Assist (iter_assist_requests self q) (deadline self)))))
      | Some e \<Rightarrow> Inl e)"
  by (simp add: assist_def loop_fold split: prod.splits option.splits)

subsection \<open>Threading of the state through turns\<close>

lemma run_turns_snoc:
  "run_turns self (ts @ [t]) = fst (assist (run_turns self ts) (fst t) (snd t))"
  by (induction ts arbitrary: self) simp_all

lemma take_Suc_snoc: "k < length ts \<Longrightarrow> take (Suc k) ts = take k ts @ [ts ! k]"
  by (simp add: take_Suc_conv_app_nth)

lemma token_of_req:
  "in_conversation_state (dialog_state_in (config (req self q))) =
     (case conversation_state self of None \<Rightarrow> [] | Some b \<Rightarrow> b)"
  by (cases "conversation_state self") (simp_all add: req_def Let_def)

lemma tokens_of_requests:
  "map (\<lambda>r. in_conversation_state (dialog_state_in (config r))) (iter_assist_requests self q) =
     [case conversation_state self of None \<Rightarrow> [] | Some b \<Rightarrow> b]"
  by (simp add: iter_assist_requests_def token_of_req)

lemma assist_expecting:
  "assist self q (expecting (iter_assist_requests self q) Assist) = assist self q Assist"
  by (simp add: assist_def expecting_def)

lemma state_after_turn:
  assumes "k < length ts"
  shows "conversation_state (run_turns self (take (Suc k) ts)) =
           (case last_nonempty (tokens (received self ts k)) of
              None \<Rightarrow> conversation_state (run_turns self (take k ts))
            | Some t \<Rightarrow> Some t)"
  using assms
  by (simp add: take_Suc_snoc run_turns_snoc assist_session received_def sent_def)

lemma state_none_so_far:
  assumes "k \<le> length ts"
    and "\<forall>j<k. last_nonempty (tokens (received self ts j)) = None"
    and "conversation_state self = None"
  shows "conversation_state (run_turns self (take k ts)) = None"
  using assms
proof (induction k)
  case 0
  then show ?case by simp
next
  case (Suc k)
  then have "k < length ts" by simp
  from state_after_turn[OF this, of self] Suc show ?case by simp
qed

text \<open>
  A turn whose messages carry no token leaves the token of the next request as it was in
  its own request: a token received earlier stays in use until a later one replaces it.
\<close>

lemma token_carried_over:
  assumes "Suc k < length ts"
    and "last_nonempty (tokens (received self ts k)) = None"
  shows "sent_tokens self ts (Suc k) = sent_tokens self ts k"
proof -
  from assms(1) have "k < length ts" by simp
  from state_after_turn[OF this, of self] assms(2)
  have "conversation_state (run_turns self (take (Suc k) ts))
          = conversation_state (run_turns self (take k ts))"
    by simp
  then show ?thesis by (simp add: sent_tokens_def sent_def tokens_of_requests)
qed

text \<open>
  Claim C1. Turns are run in order on a session built by \<open>init\<close>. In the turn with
  index \<open>k\<close>, \<open>assist\<close> hands the service exactly the requests \<open>sent\<close>: a service that
  fails on any other list of requests gives the same outcome. They are one request,
  whose \<^verbatim>\<open>conversation_state\<close> is empty for the first turn, is the last non-empty token
  among the response messages of the turn before it when that turn carried one, and is empty
  when no turn before it carried a non-empty token.
\<close>

theorem state_threading:
  assumes "k < length ts"
  shows "assist (run_turns (init lang model_id dev_id dl) (take k ts)) (fst (ts ! k))
           (expecting (sent (init lang model_id dev_id dl) ts k) (snd (ts ! k)))
         = assist (run_turns (init lang model_id dev_id dl) (take k ts)) (fst (ts ! k))
             (snd (ts ! k))
       \<and> (k = 0 \<longrightarrow> sent_tokens (init lang model_id dev_id dl) ts k = [[]])
       \<and> (\<forall>t. 0 < k \<and> last_nonempty (tokens (received (init lang model_id dev_id dl) ts (k - 1))) = Some t
              \<longrightarrow> sent_tokens (init lang model_id dev_id dl) ts k = [t])
       \<and> ((\<forall>j<k. last_nonempty (tokens (received (init lang model_id dev_id dl) ts j)) = None)
              \<longrightarrow> sent_tokens (init lang model_id dev_id dl) ts k = [[]])"
proof (intro conjI allI impI)
  show "assist (run_turns (init lang model_id dev_id dl) (take k ts)) (fst (ts ! k))
           (expecting (sent (init lang model_id dev_id dl) ts k) (snd (ts ! k)))
         = assist (run_turns (init lang model_id dev_id dl) (take k ts)) (fst (ts ! k))
             (snd (ts ! k))"
    unfolding sent_def by (rule assist_expecting)
next
  assume "k = 0"
  then show "sent_tokens (init lang model_id dev_id dl) ts k = [[]]"
    by (simp add: sent_tokens_def sent_def tokens_of_requests init_def)
next
  fix t
  assume h: "0 < k \<and> last_nonempty (tokens (received (init lang model_id dev_id dl) ts (k - 1))) = Some t"
  then obtain j where j: "k = Suc j" by (cases k) auto
  with assms have "j < length ts" by simp
  from state_after_turn[OF this, of "init lang model_id dev_id dl"] h j
  have "conversation_state (run_turns (init lang model_id dev_id dl) (take k ts)) = Some t"
    by simp
  then show "sent_tokens (init lang model_id dev_id dl) ts k = [t]"
    by (simp add: sent_tokens_def sent_def tokens_of_requests)
next
  assume "\<forall>j<k. last_nonempty (tokens (received (init lang model_id dev_id dl) ts j)) = None"
  with assms have "conversation_state (run_turns (init lang model_id dev_id dl) (take k ts)) = None"
    by (intro state_none_so_far) (simp_all add: init_def)
  then show "sent_tokens (init lang model_id dev_id dl) ts k = [[]]"
    by (simp add: sent_tokens_def sent_def tokens_of_requests)
qed

theorem state_threading_witness:
  "sent_tokens session0
     [(''what time is it'', answers [response [88] ''3pm''] None), (''and now'', answers [] None)] 0
     = [[]]
   \<and> sent_tokens session0
     [(''what time is it'', answers [response [88] ''3pm''] None), (''and now'', answers [] None)] 1
     = [[88]]
   \<and> sent_tokens session0
     [(''hello'', answers [response [] ''hi''] None), (''and now'', answers [] None)] 1
     = [[]]"
proof -
  let ?a = "[(''what time is it'', answers [response [88] ''3pm''] None), (''and now'', answers [] None)]"
  let ?b = "[(''hello'', answers [response [] ''hi''] None), (''and now'', answers [] None)]"
  have l0: "0 < length ?a" and l1: "1 < length ?a" and l2: "1 < length ?b" by simp_all
  have r: "last_nonempty (tokens (received session0 ?a (1 - 1))) = Some [88]"
    by (simp add: received_def answers_def tokens_def response_def)
  have n: "\<forall>j<1. last_nonempty (tokens (received session0 ?b j)) = None"
    by (simp add: received_def answers_def tokens_def response_def)
  show ?thesis
    using state_threading[OF l0, of "''en-US''" "''model''" "''device''" 185]
      state_threading[OF l1, of "''en-US''" "''model''" "''device''" 185]
      state_threading[OF l2, of "''en-US''" "''model''" "''device''" 185] r n
    unfolding session0_def by simp
qed

subsection \<open>The reply of a turn\<close>

text \<open>
  Claim C4. When the stream ends normally and only its last message carries display text,
  \<open>assist\<close> returns that text. In the loop, a message without display text leaves the
  recorded reply as it is, and a message with display text replaces it.
\<close>

theorem stream_draining:
  "(Assist (iter_assist_requests self q) (deadline self) = (rs @ [r], None)
      \<and> (\<forall>m \<in> set rs. supplemental_display_text (dialog_state_out m) = [])
      \<and> supplemental_display_text (dialog_state_out r) \<noteq> []
      \<longrightarrow> snd (assist self q Assist) = Inr (Some (supplemental_display_text (dialog_state_out r))))
   \<and> (supplemental_display_text (dialog_state_out m) = []
      \<longrightarrow> snd (loop st (ms @ [m])) = snd (loop st ms))
   \<and> (supplemental_display_text (dialog_state_out m) \<noteq> []
      \<longrightarrow> snd (loop st (ms @ [m])) = Some (supplemental_display_text (dialog_state_out m)))"
proof (intro conjI impI)
  assume "Assist (iter_assist_requests self q) (deadline self) = (rs @ [r], None)
      \<and> (\<forall>m \<in> set rs. supplemental_display_text (dialog_state_out m) = [])
      \<and> supplemental_display_text (dialog_state_out r) \<noteq> []"
  then show "snd (assist self q Assist) = Inr (Some (supplemental_display_text (dialog_state_out r)))"
    by (simp add: assist_result texts_def last_nonempty_snoc)
next
  assume "supplemental_display_text (dialog_state_out m) = []"
  then show "snd (loop st (ms @ [m])) = snd (loop st ms)"
    by (cases st) (simp add: loop_fold texts_def last_nonempty_snoc)
next
  assume "supplemental_display_text (dialog_state_out m) \<noteq> []"
  then show "snd (loop st (ms @ [m])) = Some (supplemental_display_text (dialog_state_out m))"
    by (cases st) (simp add: loop_fold texts_def last_nonempty_snoc)
qed

theorem stream_draining_witness:
  "snd (assist session0 ''status''
          (answers ([response [65] [], response [] []] @ [response [66] ''done'']) None))
     = Inr (Some ''done'')
   \<and> snd (loop (session0, None) ([response [] ''first''] @ [response [65] []])) = Some ''first''
   \<and> snd (loop (session0, None) ([response [] ''first''] @ [response [] ''second''])) = Some ''second''"
proof -
  have h1: "answers ([response [65] [], response [] []] @ [response [66] ''done'']) None
              (iter_assist_requests session0 ''status'') (deadline session0)
            = ([response [65] [], response [] []] @ [response [66] ''done''], None)
          \<and> (\<forall>m \<in> set [response [65] [], response [] []].
                supplemental_display_text (dialog_state_out m) = [])
          \<and> supplemental_display_text (dialog_state_out (response [66] ''done'')) \<noteq> []"
    by (simp add: answers_def response_def)
  have h2: "supplemental_display_text (dialog_state_out (response [65] [])) = []"
    by (simp add: response_def)
  have h3: "supplemental_display_text (dialog_state_out (response [] ''second'')) \<noteq> []"
    by (simp add: response_def)
  show ?thesis
    using h1 h2 h3
      stream_draining[of "answers ([response [65] [], response [] []] @ [response [66] ''done'']) None"
        session0 "''status''" "[response [65] [], response [] []]" "response [66] ''done''"
        "response [65] []" "(session0, None)" "[response [] ''first'']"]
      stream_draining[of "answers ([response [65] [], response [] []] @ [response [66] ''done'']) None"
        session0 "''status''" "[response [65] [], response [] []]" "response [66] ''done''"
        "response [] ''second''" "(session0, None)" "[response [] ''first'']"]
    by (simp add: response_def loop_body_def)
qed

text \<open>
  Claim C8. When the stream ends normally and no message carries display text,
  \<open>assist\<close> returns \<^verbatim>\<open>None\<close>, which is not an error; and \<open>assist\<close> never returns the
  empty string, so the absent reply is not mixed up with an empty one.
\<close>

theorem empty_reply:
  "(Assist (iter_assist_requests self q) (deadline self) = (rs, None)
      \<and> (\<forall>m \<in> set rs. supplemental_display_text (dialog_state_out m) = [])
      \<longrightarrow> assist self q Assist = (fst (assist self q Assist), Inr None))
   \<and> snd (assist self q Assist) \<noteq> Inr (Some [])"
proof (intro conjI impI)
  assume h: "Assist (iter_assist_requests self q) (deadline self) = (rs, None)
      \<and> (\<forall>m \<in> set rs. supplemental_display_text (dialog_state_out m) = [])"
  then have "last_nonempty (texts rs) = None"
    by (simp add: last_nonempty_None texts_def)
  with h have "snd (assist self q Assist) = Inr None" by (simp add: assist_result)
  then show "assist self q Assist = (fst (assist self q Assist), Inr None)"
    by (metis prod.collapse)
next
  show "snd (assist self q Assist) \<noteq> Inr (Some [])"
    using last_nonempty_Some[of "texts (fst (Assist (iter_assist_requests self q) (deadline self)))" "[]"]
    by (auto simp: assist_result split: option.splits)
qed

theorem empty_reply_witness:
  "snd (assist session0 ''turn on the light'' (answers [response [65] [], response [] []] None))
     = Inr None"
proof -
  have h: "answers [response [65] [], response [] []] None
             (iter_assist_requests session0 ''turn on the light'') (deadline session0)
           = ([response [65] [], response [] []], None)
         \<and> (\<forall>m \<in> set [response [65] [], response [] []].
               supplemental_display_text (dialog_state_out m) = [])"
    by (simp add: answers_def response_def)
  show ?thesis
    using h empty_reply[of "answers [response [65] [], response [] []] None" session0
                           "''turn on the light''" "[response [65] [], response [] []]"]
    by (metis snd_conv)
qed

subsection \<open>A turn that fails\<close>




subsection \<open>What a call leaves alone\<close>

text \<open>
  Claim C9. A call of \<open>assist\<close> changes no field of the session other than
  \<^verbatim>\<open>conversation_state\<close>, and after any number of turns the language code, the device
  identifiers and the deadline are the ones given to \<open>init\<close>. The session and the stream
  are all \<open>assist\<close> reads and writes: it stores nothing elsewhere.
\<close>

theorem assist_frame:
  "fst (assist self q Assist) =
      self\<lparr> conversation_state := conversation_state (fst (assist self q Assist)) \<rparr>
   \<and> language_code (run_turns (init lang model_id dev_id dl) ts) = lang
   \<and> device_model_id (run_turns (init lang model_id dev_id dl) ts) = model_id
   \<and> device_id (run_turns (init lang model_id dev_id dl) ts) = dev_id
   \<and> deadline (run_turns (init lang model_id dev_id dl) ts) = dl"
proof -
  have one: "fst (assist s q' A) = s\<lparr> conversation_state := conversation_state (fst (assist s q' A)) \<rparr>"
    for s q' A
  proof -
    obtain c where e: "fst (assist s q' A) = s\<lparr> conversation_state := c \<rparr>"
      using assist_session by blast
    show ?thesis by (simp add: e)
  qed
  have every: "\<exists>c. run_turns s ts = s\<lparr> conversation_state := c \<rparr>" for s
  proof (induction ts arbitrary: s)
    case Nil
    have "s = s\<lparr> conversation_state := conversation_state s \<rparr>" by simp
    then show ?case by (metis run_turns.simps(1))
  next
    case (Cons t ts)
    obtain c where "run_turns (fst (assist s (fst t) (snd t))) ts
                     = (fst (assist s (fst t) (snd t)))\<lparr> conversation_state := c \<rparr>"
      using Cons.IH by blast
    then have "run_turns s (t # ts) = s\<lparr> conversation_state := c \<rparr>"
      by (simp add: assist_session)
    then show ?case by blast
  qed
  obtain c where "run_turns (init lang model_id dev_id dl) ts
                    = (init lang model_id dev_id dl)\<lparr> conversation_state := c \<rparr>"
    using every by blast
  then show ?thesis using one by (simp add: init_def)
qed

subsection \<open>The handler: splitting off the mention\<close>

lemma startswith_append:
  "startswith w p \<Longrightarrow> startswith (w @ rest) p"
  unfolding startswith_def
  by (metis append_eq_conv_conj append_take_drop_id append.assoc)

lemma takeWhile_first_word:
  "CHR '' '' \<notin> set w \<Longrightarrow> takeWhile (\<lambda>c. c \<noteq> CHR '' '') (w @ CHR '' '' # rest) = w"
  by (induction w) auto

lemma dropWhile_first_word:
  "CHR '' '' \<notin> set w \<Longrightarrow>
     dropWhile (\<lambda>c. c \<noteq> CHR '' '') (w @ CHR '' '' # rest) = CHR '' '' # rest"
  by (induction w) auto

lemma split1_space:
  "CHR '' '' \<notin> set w \<Longrightarrow> split1 (w @ CHR '' '' # rest) = [w, rest]"
  by (simp add: split1_def takeWhile_first_word dropWhile_first_word)

lemma split1_no_space:
  "CHR '' '' \<notin> set s \<Longrightarrow> split1 s = [s]"
  by (simp add: split1_def)

lemma asked_simps:
  "asked [] = []"
  "asked (Call_assist q # cs) = q # asked cs"
  "asked (Call_reply_text t # cs) = asked cs"
  "asked (Call_get_member u # cs) = asked cs"
  "asked (Call_leave # cs) = asked cs"
  "asked (xs @ ys) = asked xs @ asked ys"
  by (simp_all add: asked_def)

lemma asked_member_loop: "member_loop mf us b = (cs, r) \<Longrightarrow> asked cs = []"
proof (induction us arbitrary: b cs r)
  case Nil
  then show ?case by (simp add: asked_simps)
next
  case (Cons u us)
  obtain cs1 r1 where m: "member_loop mf us (if mf u then False else b) = (cs1, r1)"
    by (cases "member_loop mf us (if mf u then False else b)")
  with Cons.prems have "cs = Call_get_member u # cs1" by simp
  moreover from Cons.IH[OF m] have "asked cs1 = []" .
  ultimately show ?case by (simp add: asked_simps)
qed

lemma handler_mention_branch:
  assumes "chat_type m \<noteq> ''private''"
    and "startswith (message_text m) (''@'' @ bot_username g)"
    and "split1 (message_text m) = [w, rest]"
  shows "asked (calls (assist_handler g s A mf m)) = [rest]
       \<and> session (assist_handler g s A mf m) = fst (assist s rest A)"
proof -
  obtain s1 r where a: "assist s rest A = (s1, r)" by (cases "assist s rest A")
  obtain cs b where ml: "member_loop mf (AUTHORIZED_USER_IDS g) True = (cs, b)"
    by (cases "member_loop mf (AUTHORIZED_USER_IDS g) True")
  have "asked cs = []" using asked_member_loop[OF ml] .
  with assms a ml show ?thesis
    by (cases r) (simp_all add: assist_handler_def Let_def asked_simps)
qed

lemma handler_no_space:
  assumes "chat_type m \<noteq> ''private''"
    and "CHR '' '' \<notin> set (message_text m)"
  shows "assist_handler g s A mf m = \<lparr> session = s, calls = [], raised = None \<rparr>"
  using assms by (simp add: assist_handler_def Let_def split1_no_space)

subsection \<open>The handler: authorization and relay\<close>

text \<open>
  In a private chat the check of the sender comes before the call of the session: an
  unauthorized sender gets the fixed reply and the session is not touched. An authorized
  sender's text goes to the session as it is, and what \<open>assist\<close> returns is handed to
  \<^verbatim>\<open>reply_text\<close>.
\<close>

lemma private_unauthorized:
  assumes "chat_type m = ''private''"
    and "from_user_id m \<notin> set (AUTHORIZED_USER_IDS g)"
  shows "assist_handler g s A mf m =
           \<lparr> session = s, calls = [Call_reply_text (Some ''Unauthorized'')], raised = None \<rparr>"
  using assms by (simp add: assist_handler_def)

lemma private_authorized:
  assumes "chat_type m = ''private''"
    and "from_user_id m \<in> set (AUTHORIZED_USER_IDS g)"
    and "assist s (message_text m) A = (s1, Inr display_text)"
  shows "assist_handler g s A mf m =
           \<lparr> session = s1,
             calls = [Call_assist (message_text m), Call_reply_text display_text],
             raised = None \<rparr>"
  using assms by (simp add: assist_handler_def)

text \<open>
  Claim C5, at a group message that the policy rejects. The chat 5 is not in
  \<^verbatim>\<open>ALLOWED_CHAT_IDS\<close> and the sender 9 is not in \<^verbatim>\<open>AUTHORIZED_USER_IDS\<close>; the
  handler calls the session with the query before it checks either list, replies
  \<^verbatim>\<open>Unauthorized\<close> afterwards, and the session keeps the token of the rejected turn.
\<close>

theorem unauthorized_mention_reaches_assist:
  "calls (assist_handler globals0 session0 (answers [response [65] ''hi''] None) (\<lambda>u. False)
            \<lparr> chat_type = ''group'', chat_id = 5, from_user_id = 9,
              message_text = ''@botname hello'' \<rparr>)
     = [Call_assist ''hello'', Call_reply_text (Some ''Unauthorized''), Call_get_member 7,
        Call_leave]
   \<and> conversation_state
       (session (assist_handler globals0 session0 (answers [response [65] ''hi''] None)
                  (\<lambda>u. False)
                  \<lparr> chat_type = ''group'', chat_id = 5, from_user_id = 9,
                    message_text = ''@botname hello'' \<rparr>))
     = Some [65]"
  by (simp add: assist_handler_def assist_def answers_def response_def loop_body_def
        session0_def init_def globals0_def startswith_def split1_def Let_def)

text \<open>
  Claim C6, at a private message of an authorized sender whose turn yields no display
  text. The handler passes \<^verbatim>\<open>None\<close> to \<^verbatim>\<open>reply_text\<close>; the branch for groups tests
  \<^verbatim>\<open>display_text is not None\<close> before it replies, this branch does not.
\<close>

theorem private_absent_reply_is_sent:
  "calls (assist_handler globals0 session0 (answers [response [65] []] None) (\<lambda>u. False)
            \<lparr> chat_type = ''private'', chat_id = 7, from_user_id = 7,
              message_text = ''turn on the light'' \<rparr>)
     = [Call_assist ''turn on the light'', Call_reply_text None]"
  by (simp add: assist_handler_def assist_def answers_def response_def loop_body_def
        session0_def init_def globals0_def)

subsection \<open>The handler: mentions in a group\<close>

text \<open>
  Claim C7 as stated fails: for the group message \<^verbatim>\<open>"@botname "\<close>, which is the mention
  followed by one space, the handler calls the session with the empty string.
\<close>

theorem mention_empty_query_counterexample:
  "chat_type \<lparr> chat_type = ''group'', chat_id = 100, from_user_id = 7,
               message_text = ''@botname '' \<rparr> \<noteq> ''private''
   \<and> startswith ''@botname '' (''@'' @ bot_username globals0)
   \<and> calls (assist_handler globals0 session0 (answers [] None) (\<lambda>u. False)
              \<lparr> chat_type = ''group'', chat_id = 100, from_user_id = 7,
                message_text = ''@botname '' \<rparr>)
       = [Call_assist []]"
  by (simp add: assist_handler_def assist_def answers_def
        session0_def init_def globals0_def startswith_def split1_def Let_def)

text \<open>
  Claim C7, amended. For a group message that begins with the mention, the handler calls
  the session exactly when the text contains a space, once, with everything after the first
  space as the query; when the text contains no space the message is ignored: no call is
  made and the session is as before.
\<close>

theorem mention_query:
  assumes "chat_type m \<noteq> ''private''"
    and "startswith (message_text m) (''@'' @ bot_username g)"
  shows "(CHR '' '' \<in> set (message_text m) \<longrightarrow>
            asked (calls (assist_handler g s A mf m))
              = [tl (dropWhile (\<lambda>c. c \<noteq> CHR '' '') (message_text m))])
       \<and> (CHR '' '' \<notin> set (message_text m) \<longrightarrow>
            assist_handler g s A mf m = \<lparr> session = s, calls = [], raised = None \<rparr>)"
proof (intro conjI impI)
  assume "CHR '' '' \<in> set (message_text m)"
  then have "split1 (message_text m) =
               [takeWhile (\<lambda>c. c \<noteq> CHR '' '') (message_text m),
                tl (dropWhile (\<lambda>c. c \<noteq> CHR '' '') (message_text m))]"
    by (simp add: split1_def)
  from handler_mention_branch[OF assms this]
  show "asked (calls (assist_handler g s A mf m))
          = [tl (dropWhile (\<lambda>c. c \<noteq> CHR '' '') (message_text m))]"
    by simp
next
  assume "CHR '' '' \<notin> set (message_text m)"
  with assms(1) show "assist_handler g s A mf m = \<lparr> session = s, calls = [], raised = None \<rparr>"
    by (rule handler_no_space)
qed

theorem mention_query_witness:
  "asked (calls (assist_handler globals0 session0 (answers [response [65] ''hi''] None)
                   (\<lambda>u. False)
                   \<lparr> chat_type = ''group'', chat_id = 100, from_user_id = 7,
                     message_text = ''@botname what time is it'' \<rparr>))
     = [''what time is it'']
   \<and> assist_handler globals0 session0 (answers [response [65] ''hi''] None) (\<lambda>u. False)
        \<lparr> chat_type = ''group'', chat_id = 100, from_user_id = 7, message_text = ''@botname'' \<rparr>
     = \<lparr> session = session0, calls = [], raised = None \<rparr>"
proof -
  let ?a = "\<lparr> chat_type = ''group'', chat_id = 100, from_user_id = 7,
               message_text = ''@botname what time is it'' \<rparr>"
  let ?b = "\<lparr> chat_type = ''group'', chat_id = 100, from_user_id = 7,
               message_text = ''@botname'' \<rparr>"
  have a1: "chat_type ?a \<noteq> ''private''" and b1: "chat_type ?b \<noteq> ''private''" by simp_all
  have a2: "startswith (message_text ?a) (''@'' @ bot_username globals0)"
    and b2: "startswith (message_text ?b) (''@'' @ bot_username globals0)"
    by (simp_all add: startswith_def globals0_def)
  have a3: "CHR '' '' \<in> set (message_text ?a)" and b3: "CHR '' '' \<notin> set (message_text ?b)"
    by simp_all
  show ?thesis
    using a3 b3
      mention_query[OF a1 a2, of session0 "answers [response [65] ''hi''] None" "\<lambda>u. False"]
      mention_query[OF b1 b2, of session0 "answers [response [65] ''hi''] None" "\<lambda>u. False"]
    by simp
qed

text \<open>
  Claim C10. The test for the mention looks at the beginning of the text only. When a
  group message begins with \<^verbatim>\<open>@\<close> and the bot's name, followed by any further
  characters of the same word, a space and a remainder, the handler drops that first word
  and calls the session with the remainder.
\<close>

theorem mention_prefix:
  assumes "chat_type m \<noteq> ''private''"
    and "message_text m = ''@'' @ bot_username g @ suffix @ CHR '' '' # rest"
    and "CHR '' '' \<notin> set (bot_username g @ suffix)"
  shows "asked (calls (assist_handler g s A mf m)) = [rest]
       \<and> session (assist_handler g s A mf m) = fst (assist s rest A)"
proof -
  let ?w = "''@'' @ bot_username g @ suffix"
  have w: "CHR '' '' \<notin> set ?w" using assms(3) by simp
  have t: "message_text m = ?w @ CHR '' '' # rest" using assms(2) by simp
  have "startswith ?w (''@'' @ bot_username g)" by (simp add: startswith_def)
  then have st: "startswith (message_text m) (''@'' @ bot_username g)"
    unfolding t by (rule startswith_append)
  have sp: "split1 (message_text m) = [?w, rest]"
    unfolding t using w by (rule split1_space)
  from handler_mention_branch[OF assms(1) st sp] show ?thesis .
qed

theorem mention_prefix_witness:
  "asked (calls (assist_handler globals0 session0 (answers [response [65] ''hi''] None)
                   (\<lambda>u. False)
                   \<lparr> chat_type = ''group'', chat_id = 100, from_user_id = 7,
                     message_text = ''@botnameX hello'' \<rparr>))
     = [''hello'']"
proof -
  let ?m = "\<lparr> chat_type = ''group'', chat_id = 100, from_user_id = 7,
               message_text = ''@botnameX hello'' \<rparr>"
  have h1: "chat_type ?m \<noteq> ''private''" by simp
  have h2: "message_text ?m = ''@'' @ bot_username globals0 @ ''X'' @ CHR '' '' # ''hello''"
    by (simp add: globals0_def)
  have h3: "CHR '' '' \<notin> set (bot_username globals0 @ ''X'')" by (simp add: globals0_def)
  show ?thesis
    using mention_prefix[OF h1 h2 h3, of session0 "answers [response [65] ''hi''] None" "\<lambda>u. False"]
    by simp
qed

end
